theory Spec2Isabelle
  imports Complex_Main
begin

section \<open>The Reed-Muench titer calculation\<close>

text \<open>
  A shallow embedding of the function \<^verbatim>\<open>Titer\<close> of \<^verbatim>\<open>reedmuench_utils.py\<close>
  (the copy in \<^verbatim>\<open>reedmuenchcalculator.py\<close> is the same text, line for line).

  Row labels are Python strings, the replicate data is a list of lists of labels, the
  four tables \<^verbatim>\<open>counts\<close>, \<^verbatim>\<open>infected\<close>, \<^verbatim>\<open>uninfected\<close> and
  \<^verbatim>\<open>percentinfected\<close> are dictionaries keyed by label. Python integers are
  \<^typ>\<open>int\<close>. Python floats are modelled by \<^typ>\<open>real\<close>: every floating-point
  operation is taken to be exact, without rounding. The power \<^verbatim>\<open>**\<close> raises
  \<^verbatim>\<open>OverflowError\<close> when its result leaves the range of a double, and the model
  has that branch; a float division does not raise on overflow (Python returns
  \<^verbatim>\<open>inf\<close>), and the model keeps the exact quotient. Every exception of the
  source, the implicit ones included, is a value of \<open>error\<close>.
\<close>

subsection \<open>Errors and dictionaries\<close>

text \<open>
  The four \<^verbatim>\<open>ValueError\<close>s raised by \<^verbatim>\<open>Titer\<close> itself are told apart by
  their message; each has a constructor of its own:
  \<^item> \<open>InsufficientReplicates n\<close>: "... requires at least two replicates. Only n are provided."
  \<^item> \<open>InvalidRowLabel w\<close>: "One of the rows is specified as w, which is not a valid row."
  \<^item> \<open>FirstDilutionBelow50\<close>: "Even the first dilution has < 50% infected."
  \<^item> \<open>NoDilutionBelow50\<close>: "No dilutions have < 50% infected."

  The others are the exceptions of the Python operations used: a missing dictionary
  key, a list index out of range, a division by zero, the \<^verbatim>\<open>ValueError\<close> of
  \<^verbatim>\<open>list.index\<close> and of a negative float raised to a fractional power, and the
  \<^verbatim>\<open>OverflowError\<close> of a power too large for a double.
\<close>

datatype error =
    InsufficientReplicates int
  | InvalidRowLabel string
  | FirstDilutionBelow50
  | NoDilutionBelow50
  | ZeroDivisionError
  | KeyError string
  | IndexError
  | ValueError
  | OverflowError

type_synonym 'v dict = "string \<rightharpoonup> 'v"

definition getitem :: "'v dict \<Rightarrow> string \<Rightarrow> error + 'v" where
  "getitem d k = (case d k of None \<Rightarrow> Inl (KeyError k) | Some v \<Rightarrow> Inr v)"

text \<open>\<^verbatim>\<open>xs.index(x)\<close>: the position of the first occurrence.\<close>

fun list_index :: "'a list \<Rightarrow> 'a \<Rightarrow> error + nat" where
  "list_index [] x = Inl ValueError"
| "list_index (y # ys) x =
     (if y = x then Inr 0
      else (case list_index ys x of Inl e \<Rightarrow> Inl e | Inr i \<Rightarrow> Inr (Suc i)))"

text \<open>\<^verbatim>\<open>xs[i]\<close> for an index that is not negative.\<close>

definition list_get :: "'a list \<Rightarrow> nat \<Rightarrow> error + 'a" where
  "list_get xs i = (if i < length xs then Inr (xs ! i) else Inl IndexError)"

text \<open>
  The least real number that rounding to the nearest double sends to infinity: the
  largest double is \<open>2 ^ 1024 - 2 ^ 971\<close>, and half a unit in the last place above it
  is \<open>2 ^ 1024 - 2 ^ 970\<close>.
\<close>

definition float_overflow :: real where
  "float_overflow = 2 ^ 1024 - 2 ^ 970"

text \<open>
  \<^verbatim>\<open>x ** y\<close> on floats (Python 2, \<^verbatim>\<open>float_pow\<close>): anything to the power 0 is 1;
  zero to a negative power raises \<^verbatim>\<open>ZeroDivisionError\<close>; a negative base with a
  fractional exponent raises \<^verbatim>\<open>ValueError\<close>; otherwise the C function
  \<^verbatim>\<open>pow\<close> is called, and a result beyond the range of a double raises
  \<^verbatim>\<open>OverflowError\<close> (a result that underflows is 0 and does not raise).
\<close>

definition float_pow :: "real \<Rightarrow> real \<Rightarrow> error + real" where
  "float_pow x y =
     (if y = 0 then Inr 1
      else if x = 0 then (if 0 < y then Inr 0 else Inl ZeroDivisionError)
      else if 0 < x then
        (if float_overflow \<le> x powr y then Inl OverflowError else Inr (x powr y))
      else if y = of_int \<lfloor>y\<rfloor> then
        (if float_overflow \<le> \<bar>x powi \<lfloor>y\<rfloor>\<bar> then Inl OverflowError
         else Inr (x powi \<lfloor>y\<rfloor>))
      else Inl ValueError)"

text \<open>
  \<^verbatim>\<open>x / y\<close> on floats: a zero divisor raises; a quotient too large for a double
  is \<^verbatim>\<open>inf\<close> in Python, without an exception.
\<close>

definition float_div :: "real \<Rightarrow> real \<Rightarrow> error + real" where
  "float_div x y = (if y = 0 then Inl ZeroDivisionError else Inr (x / y))"

subsection \<open>The phases of \<^verbatim>\<open>Titer\<close>\<close>

definition rows :: "string list" where
  "rows = [''A'', ''B'', ''C'', ''D'', ''E'', ''F'', ''G'', ''H'']"

definition reverserows :: "string list" where
  "reverserows = rev rows"

text \<open>\<^verbatim>\<open>counts = dict([(r, 0) for r in rows])\<close>\<close>

definition counts_init :: "int dict" where
  "counts_init = map_of (map (\<lambda>r. (r, 0)) rows)"

text \<open>
  The inner loop over the wells of one replicate:
  \<^verbatim>\<open>
  for well in replicatewells:
      if well not in rows:
          raise ValueError("One of the rows is specified as %s, ..." % well)
      counts[well] += 1
  \<close>
\<close>

fun count_replicate :: "int dict \<Rightarrow> string list \<Rightarrow> error + int dict" where
  "count_replicate counts [] = Inr counts"
| "count_replicate counts (well # replicatewells) =
     (if well \<notin> set rows then Inl (InvalidRowLabel well)
      else (case getitem counts well of
              Inl e \<Rightarrow> Inl e
            | Inr c \<Rightarrow> count_replicate (counts(well \<mapsto> c + 1)) replicatewells))"

text \<open>The outer loop \<^verbatim>\<open>for replicatewells in infectedwells\<close>.\<close>

fun count_wells :: "int dict \<Rightarrow> string list list \<Rightarrow> error + int dict" where
  "count_wells counts [] = Inr counts"
| "count_wells counts (replicatewells # infectedwells) =
     (case count_replicate counts replicatewells of
        Inl e \<Rightarrow> Inl e
      | Inr counts' \<Rightarrow> count_wells counts' infectedwells)"

text \<open>
  \<^verbatim>\<open>
  n = 0
  for row in rows:
      uninfected[row] = n + nreplicates - counts[row]
      n = uninfected[row]
  \<close>
\<close>

fun uninfected_loop ::
  "int \<Rightarrow> int dict \<Rightarrow> int dict \<Rightarrow> int \<Rightarrow> string list \<Rightarrow> error + int dict" where
  "uninfected_loop nreplicates counts uninfected n [] = Inr uninfected"
| "uninfected_loop nreplicates counts uninfected n (row # rs) =
     (case getitem counts row of
        Inl e \<Rightarrow> Inl e
      | Inr c \<Rightarrow>
          uninfected_loop nreplicates counts
            (uninfected(row \<mapsto> n + nreplicates - c)) (n + nreplicates - c) rs)"

text \<open>
  \<^verbatim>\<open>
  n = 0
  for row in reverserows:
      infected[row] = n + counts[row]
      n = infected[row]
  \<close>
\<close>

fun infected_loop :: "int dict \<Rightarrow> int dict \<Rightarrow> int \<Rightarrow> string list \<Rightarrow> error + int dict" where
  "infected_loop counts infected n [] = Inr infected"
| "infected_loop counts infected n (row # rs) =
     (case getitem counts row of
        Inl e \<Rightarrow> Inl e
      | Inr c \<Rightarrow> infected_loop counts (infected(row \<mapsto> n + c)) (n + c) rs)"

text \<open>
  \<^verbatim>\<open>
  for row in rows:
      percentinfected[row] = 100.0 * infected[row] / (infected[row] + uninfected[row])
  \<close>
  The division raises \<^verbatim>\<open>ZeroDivisionError\<close> when the denominator is zero.
\<close>

fun percent_loop ::
  "int dict \<Rightarrow> int dict \<Rightarrow> real dict \<Rightarrow> string list \<Rightarrow> error + real dict" where
  "percent_loop infected uninfected percentinfected [] = Inr percentinfected"
| "percent_loop infected uninfected percentinfected (row # rs) =
     (case getitem infected row of
        Inl e \<Rightarrow> Inl e
      | Inr i \<Rightarrow>
          (case getitem uninfected row of
             Inl e \<Rightarrow> Inl e
           | Inr u \<Rightarrow>
               (case float_div (100 * real_of_int i) (real_of_int (i + u)) of
                  Inl e \<Rightarrow> Inl e
                | Inr p \<Rightarrow>
                    percent_loop infected uninfected (percentinfected(row \<mapsto> p)) rs)))"

text \<open>
  \<^verbatim>\<open>
  for irow in range(len(rows)):
      if percentinfected[rows[irow]] < 50:
          if irow == 0:
              raise ValueError("Even the first dilution has < 50% infected.")
          else:
              rowabove50 = rows[irow - 1]
              break
  else:
      raise ValueError("No dilutions have < 50% infected.")
  \<close>
\<close>

fun find_rowabove50 :: "real dict \<Rightarrow> nat list \<Rightarrow> error + string" where
  "find_rowabove50 percentinfected [] = Inl NoDilutionBelow50"
| "find_rowabove50 percentinfected (irow # irows) =
     (case list_get rows irow of
        Inl e \<Rightarrow> Inl e
      | Inr row \<Rightarrow>
          (case getitem percentinfected row of
             Inl e \<Rightarrow> Inl e
           | Inr p \<Rightarrow>
               if p < 50 then
                 (if irow = 0 then Inl FirstDilutionBelow50 else list_get rows (irow - 1))
               else find_rowabove50 percentinfected irows))"

text \<open>The local variables of \<^verbatim>\<open>Titer\<close> once the interpolation index is known.\<close>

record locals =
  rowabove50 :: string
  percentrowabove50 :: real
  percentrowbelow50 :: real
  index :: real
  startdilution :: nat

text \<open>
  \<^verbatim>\<open>
  percentrowabove50 = percentinfected[rowabove50]
  if rowabove50 != rows[-1]:
      percentrowbelow50 = percentinfected[rows[rows.index(rowabove50) + 1]]
  else:
      percentrowbelow50 = 0
  index = (percentrowabove50 - 50.0) / (percentrowabove50 - percentrowbelow50)
  startdilution = rows.index(rowabove50)
  \<close>
\<close>

definition percent_below :: "real dict \<Rightarrow> string \<Rightarrow> error + real" where
  "percent_below percentinfected rabove =
     (if rabove \<noteq> last rows then
        (case list_index rows rabove of
           Inl e \<Rightarrow> Inl e
         | Inr i \<Rightarrow>
             (case list_get rows (i + 1) of
                Inl e \<Rightarrow> Inl e
              | Inr below \<Rightarrow> getitem percentinfected below))
      else Inr 0)"

definition interpolate :: "real dict \<Rightarrow> string \<Rightarrow> error + locals" where
  "interpolate percentinfected rabove =
     (case getitem percentinfected rabove of
        Inl e \<Rightarrow> Inl e
      | Inr pa \<Rightarrow>
          (case percent_below percentinfected rabove of
             Inl e \<Rightarrow> Inl e
           | Inr pb \<Rightarrow>
               (case float_div (pa - 50) (pa - pb) of
                  Inl e \<Rightarrow> Inl e
                | Inr ix \<Rightarrow>
                    (case list_index rows rabove of
                       Inl e \<Rightarrow> Inl e
                     | Inr sd \<Rightarrow>
                         Inr \<lparr>rowabove50 = rabove, percentrowabove50 = pa,
                              percentrowbelow50 = pb, index = ix, startdilution = sd\<rparr>))))"

subsection \<open>\<^verbatim>\<open>Titer\<close>, phase by phase\<close>

text \<open>Lines 36 to 44: the replicate check and the counting loop.\<close>

definition Titer_counts :: "string list list \<Rightarrow> error + int dict" where
  "Titer_counts infectedwells =
     (let nreplicates = int (length infectedwells) in
      if nreplicates < 2 then Inl (InsufficientReplicates nreplicates)
      else count_wells counts_init infectedwells)"

text \<open>Lines 45 to 54: the two cumulative tables, \<^verbatim>\<open>uninfected\<close> first.\<close>

definition Titer_cumulative :: "string list list \<Rightarrow> error + (int dict \<times> int dict)" where
  "Titer_cumulative infectedwells =
     (case Titer_counts infectedwells of
        Inl e \<Rightarrow> Inl e
      | Inr counts \<Rightarrow>
          (case uninfected_loop (int (length infectedwells)) counts Map.empty 0 rows of
             Inl e \<Rightarrow> Inl e
           | Inr uninfected \<Rightarrow>
               (case infected_loop counts Map.empty 0 reverserows of
                  Inl e \<Rightarrow> Inl e
                | Inr infected \<Rightarrow> Inr (infected, uninfected))))"

text \<open>Lines 55 to 57.\<close>

definition Titer_percentinfected :: "string list list \<Rightarrow> error + real dict" where
  "Titer_percentinfected infectedwells =
     (case Titer_cumulative infectedwells of
        Inl e \<Rightarrow> Inl e
      | Inr (infected, uninfected) \<Rightarrow> percent_loop infected uninfected Map.empty rows)"

text \<open>Lines 58 to 73.\<close>

definition Titer_locals :: "string list list \<Rightarrow> error + locals" where
  "Titer_locals infectedwells =
     (case Titer_percentinfected infectedwells of
        Inl e \<Rightarrow> Inl e
      | Inr percentinfected \<Rightarrow>
          (case find_rowabove50 percentinfected [0..<length rows] of
             Inl e \<Rightarrow> Inl e
           | Inr rabove \<Rightarrow> interpolate percentinfected rabove))"

text \<open>
  Lines 74 and 75:
  \<^verbatim>\<open>titer = dilution**(startdilution + index) / volume\<close>.
\<close>

definition Titer :: "string list list \<Rightarrow> real \<Rightarrow> real \<Rightarrow> error + real" where
  "Titer infectedwells volume dilution =
     (case Titer_locals infectedwells of
        Inl e \<Rightarrow> Inl e
      | Inr l \<Rightarrow>
          (case float_pow dilution (real (startdilution l) + index l) of
             Inl e \<Rightarrow> Inl e
           | Inr p \<Rightarrow> float_div p volume))"

text \<open>
  A valid sample assay: at least two replicates, each a duplicate-free list of labels
  from A to H.
\<close>

definition valid_assay :: "string list list \<Rightarrow> bool" where
  "valid_assay infectedwells \<longleftrightarrow>
     2 \<le> length infectedwells \<and>
     list_all (\<lambda>r. distinct r \<and> list_all (\<lambda>w. w \<in> set rows) r) infectedwells"

text \<open>The entry \<^verbatim>\<open>percentinfected[row]\<close> once the table is complete (line 57).\<close>

definition percentinfected_at :: "string list list \<Rightarrow> string \<Rightarrow> error + real" where
  "percentinfected_at infectedwells row =
     (case Titer_percentinfected infectedwells of
        Inl e \<Rightarrow> Inl e
      | Inr percentinfected \<Rightarrow> getitem percentinfected row)"

subsection \<open>Closed forms of the tables\<close>

text \<open>
  What the loops compute, written without the dictionaries; the proofs below relate the
  tables of \<^verbatim>\<open>Titer\<close> to these. \<open>rows_dict f\<close> is the dictionary with exactly the
  eight row labels as keys, \<open>cnt\<close> counts the occurrences of a label over all
  replicates, and for the row at position \<open>k\<close> of \<open>rows\<close>, \<open>cum_infected\<close> sums the
  counts of the rows from position \<open>k\<close> on and \<open>cum_uninfected\<close> sums
  \<open>n - count\<close> over the rows up to position \<open>k\<close>.
\<close>

definition rows_dict :: "(string \<Rightarrow> 'v) \<Rightarrow> 'v dict" where
  "rows_dict f = (\<lambda>r. if r \<in> set rows then Some (f r) else None)"

definition cnt :: "string list list \<Rightarrow> string \<Rightarrow> int" where
  "cnt infectedwells r = int (count_list (concat infectedwells) r)"

definition cum_infected :: "(string \<Rightarrow> int) \<Rightarrow> nat \<Rightarrow> int" where
  "cum_infected c k = sum_list (map c (drop k rows))"

definition cum_uninfected :: "int \<Rightarrow> (string \<Rightarrow> int) \<Rightarrow> nat \<Rightarrow> int" where
  "cum_uninfected n c k = sum_list (map (\<lambda>r. n - c r) (take (Suc k) rows))"

definition percent :: "int \<Rightarrow> (string \<Rightarrow> int) \<Rightarrow> nat \<Rightarrow> real" where
  "percent n c k =
     100 * real_of_int (cum_infected c k) /
       real_of_int (cum_infected c k + cum_uninfected n c k)"

subsection \<open>The calculation as the specification words it\<close>

text \<open>
  Section 4.1 of the specification, for a row given by its position \<open>k\<close> in A to H:
  \<open>count[row]\<close> is the number of replicates that contain the row; \<open>infected[row]\<close>
  accumulates the counts from H up to the row; \<open>uninfected[row]\<close> accumulates
  \<open>nreplicates - count\<close> from A down to the row; \<open>percentInfected[row] = 100 *
  infected[row] / (infected[row] + uninfected[row])\<close>. The first row below 50 is looked
  for from A to H; there is no titer when there is none or when it is row A. Otherwise
  \<open>rowAbove50\<close> is the row before it, \<open>pBelow\<close> is the percentage of the row after
  \<open>rowAbove50\<close> (0 when \<open>rowAbove50\<close> is H), and the titer is
  \<open>dilution ^ (startDilution + index) / volume\<close> with a real exponent.
\<close>

definition spec_count :: "string list list \<Rightarrow> string \<Rightarrow> int" where
  "spec_count infectedwells row =
     int (length (filter (\<lambda>replicate. row \<in> set replicate) infectedwells))"

definition spec_infected :: "string list list \<Rightarrow> nat \<Rightarrow> int" where
  "spec_infected infectedwells k = sum_list (map (spec_count infectedwells) (drop k rows))"

definition spec_uninfected :: "string list list \<Rightarrow> nat \<Rightarrow> int" where
  "spec_uninfected infectedwells k =
     sum_list (map (\<lambda>row. int (length infectedwells) - spec_count infectedwells row)
       (take (Suc k) rows))"

definition spec_percentInfected :: "string list list \<Rightarrow> nat \<Rightarrow> real" where
  "spec_percentInfected infectedwells k =
     100 * real_of_int (spec_infected infectedwells k) /
       real_of_int (spec_infected infectedwells k + spec_uninfected infectedwells k)"

definition spec_titer :: "string list list \<Rightarrow> real \<Rightarrow> real \<Rightarrow> real option" where
  "spec_titer infectedwells volume dilution =
     (case List.find (\<lambda>k. spec_percentInfected infectedwells k < 50) [0..<length rows] of
        None \<Rightarrow> None
      | Some below \<Rightarrow>
          if below = 0 then None
          else
            (let startDilution = below - 1;
                 pAbove = spec_percentInfected infectedwells startDilution;
                 pBelow = (if startDilution = length rows - 1 then 0
                           else spec_percentInfected infectedwells (startDilution + 1));
                 ix = (pAbove - 50) / (pAbove - pBelow)
             in Some (dilution powr (real startDilution + ix) / volume)))"

subsection \<open>The documented example\<close>

text \<open>The replicates \<^verbatim>\<open>[[A, B, C, D], [A, B, C], [A, B, C, D]]\<close> of the docstring.\<close>

definition scenario :: "string list list" where
  "scenario = [[''A'', ''B'', ''C'', ''D''], [''A'', ''B'', ''C''], [''A'', ''B'', ''C'', ''D'']]"

section \<open>The counting loop\<close>

lemma distinct_rows: "distinct rows"
  by (simp add: rows_def)

lemma length_rows: "length rows = 8"
  by (simp add: rows_def)

lemma counts_init_rows_dict: "counts_init = rows_dict (\<lambda>r. 0)"
  by (rule ext) (simp add: counts_init_def rows_dict_def rows_def)

lemma getitem_rows_dict: "r \<in> set rows \<Longrightarrow> getitem (rows_dict f) r = Inr (f r)"
  by (simp add: getitem_def rows_dict_def)

lemma rows_dict_upd:
  "w \<in> set rows \<Longrightarrow> (rows_dict f)(w \<mapsto> v) = rows_dict (f(w := v))"
  by (rule ext) (simp add: rows_dict_def)

lemma count_replicate_ok:
  "set ws \<subseteq> set rows \<Longrightarrow>
   count_replicate (rows_dict f) ws = Inr (rows_dict (\<lambda>r. f r + int (count_list ws r)))"
proof (induction ws arbitrary: f)
  case Nil
  then show ?case by simp
next
  case (Cons w ws)
  have "(\<lambda>r. (f(w := f w + 1)) r + int (count_list ws r))
        = (\<lambda>r. f r + int (count_list (w # ws) r))"
    by (rule ext) simp
  with Cons show ?case
    by (simp add: getitem_rows_dict rows_dict_upd)
qed

lemma count_replicate_bad:
  "\<not> set ws \<subseteq> set rows \<Longrightarrow>
   \<exists>w. w \<in> set ws \<and> w \<notin> set rows \<and> count_replicate (rows_dict f) ws = Inl (InvalidRowLabel w)"
proof (induction ws arbitrary: f)
  case Nil
  then show ?case by simp
next
  case (Cons w ws)
  show ?case
  proof (cases "w \<in> set rows")
    case False
    then show ?thesis by auto
  next
    case True
    with Cons.prems have "\<not> set ws \<subseteq> set rows" by simp
    from Cons.IH [OF this, of "f(w := f w + 1)"]
    obtain w' where "w' \<in> set ws" "w' \<notin> set rows"
      "count_replicate (rows_dict (f(w := f w + 1))) ws = Inl (InvalidRowLabel w')"
      by blast
    with True show ?thesis
      by (intro exI [of _ w']) (simp add: getitem_rows_dict rows_dict_upd)
  qed
qed

lemma count_wells_ok:
  "\<forall>r \<in> set iw. set r \<subseteq> set rows \<Longrightarrow>
   count_wells (rows_dict f) iw = Inr (rows_dict (\<lambda>r. f r + int (count_list (concat iw) r)))"
proof (induction iw arbitrary: f)
  case Nil
  then show ?case by simp
next
  case (Cons r iw)
  then show ?case
    by (simp add: count_replicate_ok add.assoc)
qed

lemma count_wells_bad:
  "\<exists>r \<in> set iw. \<not> set r \<subseteq> set rows \<Longrightarrow>
   \<exists>w. w \<in> set (concat iw) \<and> w \<notin> set rows \<and> count_wells (rows_dict f) iw = Inl (InvalidRowLabel w)"
proof (induction iw arbitrary: f)
  case Nil
  then show ?case by simp
next
  case (Cons r iw)
  show ?case
  proof (cases "set r \<subseteq> set rows")
    case False
    from count_replicate_bad [OF this, of f] show ?thesis by auto
  next
    case True
    with Cons.prems have "\<exists>r \<in> set iw. \<not> set r \<subseteq> set rows" by simp
    from Cons.IH [OF this] True show ?thesis
      by (simp add: count_replicate_ok) blast
  qed
qed

lemma Titer_counts_few:
  "length infectedwells < 2 \<Longrightarrow>
   Titer_counts infectedwells = Inl (InsufficientReplicates (int (length infectedwells)))"
  by (simp add: Titer_counts_def)

lemma Titer_counts_ok:
  "2 \<le> length iw \<Longrightarrow> \<forall>r \<in> set iw. set r \<subseteq> set rows \<Longrightarrow>
   Titer_counts iw = Inr (rows_dict (cnt iw))"
proof -
  have "cnt iw = (\<lambda>r. int (count_list (concat iw) r))"
    by (rule ext) (simp add: cnt_def)
  then show "2 \<le> length iw \<Longrightarrow> \<forall>r \<in> set iw. set r \<subseteq> set rows \<Longrightarrow> ?thesis"
    by (simp add: Titer_counts_def counts_init_rows_dict count_wells_ok)
qed

section \<open>The cumulative tables and the percentages\<close>

lemma uninfected_loop_ok:
  "distinct rs \<Longrightarrow> \<forall>r \<in> set rs. counts r = Some (c r) \<Longrightarrow>
   \<exists>U. uninfected_loop nrep counts u n rs = Inr U \<and>
       (\<forall>i < length rs. U (rs ! i) = Some (n + sum_list (map (\<lambda>r. nrep - c r) (take (Suc i) rs)))) \<and>
       (\<forall>r. r \<notin> set rs \<longrightarrow> U r = u r)"
proof (induction rs arbitrary: u n)
  case Nil
  then show ?case by simp
next
  case (Cons row rs)
  let ?n = "n + nrep - c row"
  from Cons.prems have d: "distinct rs" and notin: "row \<notin> set rs"
    and cs: "\<forall>r \<in> set rs. counts r = Some (c r)" and crow: "counts row = Some (c row)"
    by simp_all
  from Cons.IH [OF d cs, of "u(row \<mapsto> ?n)" ?n]
  obtain U where run: "uninfected_loop nrep counts (u(row \<mapsto> ?n)) ?n rs = Inr U"
    and at: "\<And>i. i < length rs \<Longrightarrow>
               U (rs ! i) = Some (?n + sum_list (map (\<lambda>r. nrep - c r) (take (Suc i) rs)))"
    and other: "\<And>r. r \<notin> set rs \<Longrightarrow> U r = (u(row \<mapsto> ?n)) r"
    by blast
  have "uninfected_loop nrep counts u n (row # rs) = Inr U"
    using run crow by (simp add: getitem_def)
  moreover have "U ((row # rs) ! i) =
      Some (n + sum_list (map (\<lambda>r. nrep - c r) (take (Suc i) (row # rs))))"
    if "i < length (row # rs)" for i
  proof (cases i)
    case 0
    with other [OF notin] show ?thesis by simp
  next
    case (Suc j)
    with that at [of j] show ?thesis by simp
  qed
  moreover have "U r = u r" if "r \<notin> set (row # rs)" for r
    using that other [of r] by simp
  ultimately show ?case by blast
qed

lemma infected_loop_ok:
  "distinct rs \<Longrightarrow> \<forall>r \<in> set rs. counts r = Some (c r) \<Longrightarrow>
   \<exists>I. infected_loop counts u n rs = Inr I \<and>
       (\<forall>i < length rs. I (rs ! i) = Some (n + sum_list (map c (take (Suc i) rs)))) \<and>
       (\<forall>r. r \<notin> set rs \<longrightarrow> I r = u r)"
proof (induction rs arbitrary: u n)
  case Nil
  then show ?case by simp
next
  case (Cons row rs)
  let ?n = "n + c row"
  from Cons.prems have d: "distinct rs" and notin: "row \<notin> set rs"
    and cs: "\<forall>r \<in> set rs. counts r = Some (c r)" and crow: "counts row = Some (c row)"
    by simp_all
  from Cons.IH [OF d cs, of "u(row \<mapsto> ?n)" ?n]
  obtain I where run: "infected_loop counts (u(row \<mapsto> ?n)) ?n rs = Inr I"
    and at: "\<And>i. i < length rs \<Longrightarrow> I (rs ! i) = Some (?n + sum_list (map c (take (Suc i) rs)))"
    and other: "\<And>r. r \<notin> set rs \<Longrightarrow> I r = (u(row \<mapsto> ?n)) r"
    by blast
  have "infected_loop counts u n (row # rs) = Inr I"
    using run crow by (simp add: getitem_def)
  moreover have "I ((row # rs) ! i) = Some (n + sum_list (map c (take (Suc i) (row # rs))))"
    if "i < length (row # rs)" for i
  proof (cases i)
    case 0
    with other [OF notin] show ?thesis by simp
  next
    case (Suc j)
    with that at [of j] show ?thesis by simp
  qed
  moreover have "I r = u r" if "r \<notin> set (row # rs)" for r
    using that other [of r] by simp
  ultimately show ?case by blast
qed

lemma rows_nth_rev: "k < 8 \<Longrightarrow> rows ! k = reverserows ! (7 - k)"
  by (simp add: reverserows_def rev_nth length_rows)

lemma take_reverserows: "k < 8 \<Longrightarrow> take (Suc (7 - k)) reverserows = rev (drop k rows)"
  by (simp add: reverserows_def take_rev length_rows Suc_diff_le)

lemma Titer_cumulative_ok:
  assumes "2 \<le> length iw" and "\<forall>r \<in> set iw. set r \<subseteq> set rows"
  shows "\<exists>I U. Titer_cumulative iw = Inr (I, U) \<and>
           (\<forall>k < 8. I (rows ! k) = Some (cum_infected (cnt iw) k) \<and>
                    U (rows ! k) = Some (cum_uninfected (int (length iw)) (cnt iw) k))"
proof -
  let ?counts = "rows_dict (cnt iw)"
  have look: "\<forall>r \<in> set rs. ?counts r = Some (cnt iw r)" if "set rs \<subseteq> set rows" for rs
    using that by (auto simp: rows_dict_def)
  from uninfected_loop_ok [OF distinct_rows look, of "int (length iw)" Map.empty 0]
  obtain U where U: "uninfected_loop (int (length iw)) ?counts Map.empty 0 rows = Inr U"
    and Uat: "\<And>k. k < 8 \<Longrightarrow> U (rows ! k) = Some (cum_uninfected (int (length iw)) (cnt iw) k)"
    by (auto simp: cum_uninfected_def length_rows)
  have "distinct reverserows" "set reverserows \<subseteq> set rows"
    by (simp_all add: reverserows_def distinct_rows)
  from infected_loop_ok [OF this(1) look [OF this(2)], of Map.empty 0]
  obtain I where I: "infected_loop ?counts Map.empty 0 reverserows = Inr I"
    and Iat: "\<And>i. i < 8 \<Longrightarrow> I (reverserows ! i) = Some (sum_list (map (cnt iw) (take (Suc i) reverserows)))"
    by (auto simp: reverserows_def length_rows)
  have "I (rows ! k) = Some (cum_infected (cnt iw) k)" if "k < 8" for k
  proof -
    have "I (rows ! k) = Some (sum_list (map (cnt iw) (rev (drop k rows))))"
      using that Iat [of "7 - k"] by (simp add: rows_nth_rev take_reverserows)
    then show ?thesis
      by (simp add: cum_infected_def rev_map [symmetric])
  qed
  with U I Uat show ?thesis
    by (simp add: Titer_cumulative_def Titer_counts_ok [OF assms])
qed

lemma percent_loop_ok:
  "\<forall>r \<in> set rs. \<exists>i u. I r = Some i \<and> U r = Some u \<and> i + u \<noteq> 0 \<Longrightarrow>
   \<exists>P. percent_loop I U p rs = Inr P \<and>
       (\<forall>r \<in> set rs. P r = Some (100 * real_of_int (the (I r)) / real_of_int (the (I r) + the (U r)))) \<and>
       (\<forall>r. r \<notin> set rs \<longrightarrow> P r = p r)"
proof (induction rs arbitrary: p)
  case Nil
  then show ?case by simp
next
  case (Cons row rs)
  from Cons.prems obtain i u where iu: "I row = Some i" "U row = Some u" "i + u \<noteq> 0"
    by auto
  let ?v = "100 * real_of_int i / real_of_int (i + u)"
  from Cons.prems have "\<forall>r \<in> set rs. \<exists>i u. I r = Some i \<and> U r = Some u \<and> i + u \<noteq> 0"
    by simp
  from Cons.IH [OF this, of "p(row \<mapsto> ?v)"]
  obtain P where run: "percent_loop I U (p(row \<mapsto> ?v)) rs = Inr P"
    and at: "\<And>r. r \<in> set rs \<Longrightarrow>
               P r = Some (100 * real_of_int (the (I r)) / real_of_int (the (I r) + the (U r)))"
    and other: "\<And>r. r \<notin> set rs \<Longrightarrow> P r = (p(row \<mapsto> ?v)) r"
    by blast
  have nz: "real_of_int i + real_of_int u \<noteq> 0"
    using iu(3) by (metis of_int_add of_int_eq_0_iff)
  have "percent_loop I U p (row # rs) = Inr P"
    using run iu nz by (simp add: getitem_def float_div_def)
  moreover have "P r = Some (100 * real_of_int (the (I r)) / real_of_int (the (I r) + the (U r)))"
    if "r \<in> set (row # rs)" for r
  proof (cases "r \<in> set rs")
    case True
    then show ?thesis by (rule at)
  next
    case False
    with that have "r = row" by simp
    with other [OF False] iu show ?thesis by simp
  qed
  moreover have "P r = p r" if "r \<notin> set (row # rs)" for r
    using that other [of r] by simp
  ultimately show ?case by blast
qed

lemma Titer_percentinfected_ok:
  assumes "2 \<le> length iw" and "\<forall>r \<in> set iw. set r \<subseteq> set rows"
    and nz: "\<forall>k < 8. cum_infected (cnt iw) k + cum_uninfected (int (length iw)) (cnt iw) k \<noteq> 0"
  shows "\<exists>P. Titer_percentinfected iw = Inr P \<and>
           (\<forall>k < 8. P (rows ! k) = Some (percent (int (length iw)) (cnt iw) k))"
proof -
  from Titer_cumulative_ok [OF assms(1,2)]
  obtain I U where cum: "Titer_cumulative iw = Inr (I, U)"
    and I: "\<And>k. k < 8 \<Longrightarrow> I (rows ! k) = Some (cum_infected (cnt iw) k)"
    and U: "\<And>k. k < 8 \<Longrightarrow> U (rows ! k) = Some (cum_uninfected (int (length iw)) (cnt iw) k)"
    by blast
  have "\<forall>r \<in> set rows. \<exists>i u. I r = Some i \<and> U r = Some u \<and> i + u \<noteq> 0"
    using I U nz by (auto simp: in_set_conv_nth length_rows)
  from percent_loop_ok [OF this, of Map.empty]
  obtain P where P: "percent_loop I U Map.empty rows = Inr P"
    and at: "\<And>r. r \<in> set rows \<Longrightarrow>
               P r = Some (100 * real_of_int (the (I r)) / real_of_int (the (I r) + the (U r)))"
    by blast
  have "P (rows ! k) = Some (percent (int (length iw)) (cnt iw) k)" if "k < 8" for k
    using at [of "rows ! k"] I [OF that] U [OF that] that
    by (simp add: percent_def length_rows)
  with cum P show ?thesis
    by (simp add: Titer_percentinfected_def)
qed

section \<open>The scan for the 50% crossing\<close>

lemma list_index_nth:
  "distinct xs \<Longrightarrow> i < length xs \<Longrightarrow> list_index xs (xs ! i) = Inr i"
proof (induction xs arbitrary: i)
  case Nil
  then show ?case by simp
next
  case (Cons y ys)
  show ?case
  proof (cases i)
    case 0
    then show ?thesis by simp
  next
    case (Suc j)
    with Cons.prems have "j < length ys" "ys ! j \<in> set ys" "y \<notin> set ys" "distinct ys"
      by simp_all
    with Cons.IH [of j] Suc show ?thesis by auto
  qed
qed

lemma find_rowabove50_ok:
  "\<forall>i \<in> set irows. i < length rows \<and> P (rows ! i) = Some (f i) \<Longrightarrow>
   find_rowabove50 P irows =
     (case List.find (\<lambda>i. f i < 50) irows of
        None \<Rightarrow> Inl NoDilutionBelow50
      | Some i \<Rightarrow> if i = 0 then Inl FirstDilutionBelow50 else Inr (rows ! (i - 1)))"
proof (induction irows)
  case Nil
  then show ?case by simp
next
  case (Cons i irows)
  then have "i < length rows" "i - 1 < length rows" by auto
  with Cons show ?case
    by (simp add: list_get_def getitem_def)
qed

lemma rows_nth_not_last: "k < 7 \<Longrightarrow> rows ! k \<noteq> last rows"
proof -
  have "last rows = rows ! 7"
    by (simp add: rows_def)
  moreover assume "k < 7"
  ultimately show ?thesis
    using distinct_rows by (simp add: nth_eq_iff_index_eq length_rows)
qed

lemma interpolate_ok:
  assumes "k < 7" and "P (rows ! k) = Some a" and "P (rows ! Suc k) = Some b" and "a \<noteq> b"
  shows "interpolate P (rows ! k) =
           Inr \<lparr>rowabove50 = rows ! k, percentrowabove50 = a, percentrowbelow50 = b,
                index = (a - 50) / (a - b), startdilution = k\<rparr>"
proof -
  have ix: "list_index rows (rows ! k) = Inr k"
    using assms(1) by (simp add: list_index_nth distinct_rows length_rows)
  have "percent_below P (rows ! k) = Inr b"
    using assms(1,3) by (simp add: percent_below_def rows_nth_not_last ix list_get_def
        length_rows getitem_def)
  with assms(2,4) ix show ?thesis
    by (simp add: interpolate_def getitem_def float_div_def)
qed

lemma Titer_locals_ok:
  assumes "Titer_percentinfected iw = Inr P"
    and at: "\<forall>k < 8. P (rows ! k) = Some (f k)"
  shows "Titer_locals iw =
     (case List.find (\<lambda>i. f i < 50) [0..<8] of
        None \<Rightarrow> Inl NoDilutionBelow50
      | Some i \<Rightarrow>
          if i = 0 then Inl FirstDilutionBelow50
          else Inr \<lparr>rowabove50 = rows ! (i - 1), percentrowabove50 = f (i - 1),
                    percentrowbelow50 = f i, index = (f (i - 1) - 50) / (f (i - 1) - f i),
                    startdilution = i - 1\<rparr>)"
proof -
  have scan: "find_rowabove50 P [0..<8] =
     (case List.find (\<lambda>i. f i < 50) [0..<8] of
        None \<Rightarrow> Inl NoDilutionBelow50
      | Some i \<Rightarrow> if i = 0 then Inl FirstDilutionBelow50 else Inr (rows ! (i - 1)))"
    using at by (intro find_rowabove50_ok) (simp add: length_rows)
  show ?thesis
  proof (cases "List.find (\<lambda>i. f i < 50) [0..<8]")
    case None
    with scan assms(1) show ?thesis
      by (simp add: Titer_locals_def length_rows)
  next
    case (Some i)
    then have i: "i < 8" "f i < 50" "\<forall>j < i. \<not> f j < 50"
      by (auto simp: find_Some_iff)
    show ?thesis
    proof (cases i)
      case 0
      with scan Some assms(1) show ?thesis
        by (simp add: Titer_locals_def length_rows)
    next
      case (Suc k)
      with i have k: "k < 7" "f (Suc k) < 50" "\<not> f k < 50" by auto
      then have "f k \<noteq> f (Suc k)" by auto
      from interpolate_ok [OF k(1) _ _ this, of P] at k(1)
      have "interpolate P (rows ! k) =
           Inr \<lparr>rowabove50 = rows ! k, percentrowabove50 = f k, percentrowbelow50 = f (Suc k),
                index = (f k - 50) / (f k - f (Suc k)), startdilution = k\<rparr>"
        by simp
      with scan Some Suc assms(1) show ?thesis
        by (simp add: Titer_locals_def length_rows)
    qed
  qed
qed

lemma find_upt_first:
  assumes "i < n" and "Q i" and "\<forall>j < i. \<not> Q j"
  shows "List.find Q [0..<n] = Some i"
  using assms by (auto simp: find_Some_iff)

lemma float_overflow_gt_1: "1 < float_overflow"
  by (simp add: float_overflow_def)

lemma float_pow_pos:
  "0 < x \<Longrightarrow>
   float_pow x y =
     (if float_overflow \<le> x powr y then Inl OverflowError else Inr (x powr y))"
  using float_overflow_gt_1 by (simp add: float_pow_def)

lemma float_pow_pos_Inr: "0 < x \<Longrightarrow> float_pow x y = Inr p \<Longrightarrow> p = x powr y"
  by (simp add: float_pow_pos split: if_splits)

lemma powr_below_overflow:
  assumes "1 \<le> x" and "y \<le> real n" and "x ^ n < float_overflow"
  shows "\<not> float_overflow \<le> x powr y"
proof -
  from assms(1,2) have "x powr y \<le> x powr real n"
    by (rule powr_mono [rotated])
  also from assms(1) have "x powr real n = x ^ n"
    by (simp add: powr_realpow)
  finally show ?thesis
    using assms(3) by simp
qed

section \<open>Valid assays\<close>

lemma valid_assayD:
  "valid_assay iw \<Longrightarrow>
   2 \<le> length iw \<and> (\<forall>r \<in> set iw. set r \<subseteq> set rows) \<and> (\<forall>r \<in> set iw. distinct r)"
  by (auto simp: valid_assay_def list_all_iff)

lemma count_list_distinct:
  "distinct xs \<Longrightarrow> count_list xs x = (if x \<in> set xs then 1 else 0)"
  by (induction xs) auto

lemma count_list_concat_distinct:
  "\<forall>r \<in> set iw. distinct r \<Longrightarrow>
   count_list (concat iw) x = length (filter (\<lambda>r. x \<in> set r) iw)"
  by (induction iw) (simp_all add: count_list_distinct)

lemma cnt_bounds:
  assumes "\<forall>r \<in> set iw. distinct r"
  shows "0 \<le> cnt iw x" and "cnt iw x \<le> int (length iw)"
  using assms by (simp_all add: cnt_def count_list_concat_distinct)

lemma cum_infected_ge:
  assumes "\<forall>r. 0 \<le> c r" and "k < 8"
  shows "c (rows ! k) \<le> cum_infected c k"
proof -
  have "drop k rows = rows ! k # drop (Suc k) rows"
    using assms(2) by (simp add: Cons_nth_drop_Suc length_rows)
  moreover have "0 \<le> sum_list (map c (drop (Suc k) rows))"
    using assms(1) by (intro sum_list_nonneg) auto
  ultimately show ?thesis
    by (simp add: cum_infected_def)
qed

lemma cum_uninfected_ge:
  assumes "\<forall>r. c r \<le> n" and "k < 8"
  shows "n - c (rows ! k) \<le> cum_uninfected n c k"
proof -
  have "take (Suc k) rows = take k rows @ [rows ! k]"
    using assms(2) by (simp add: take_Suc_conv_app_nth length_rows)
  moreover have "0 \<le> sum_list (map (\<lambda>r. n - c r) (take k rows))"
    using assms(1) by (intro sum_list_nonneg) auto
  ultimately show ?thesis
    by (simp add: cum_uninfected_def)
qed

lemma cum_bounds:
  assumes "\<forall>r. 0 \<le> c r" and "\<forall>r. c r \<le> n" and "k < 8"
  shows "0 \<le> cum_infected c k" and "0 \<le> cum_uninfected n c k"
    and "n \<le> cum_infected c k + cum_uninfected n c k"
proof -
  from cum_infected_ge [OF assms(1,3)] assms(1) [rule_format, of "rows ! k"]
  show "0 \<le> cum_infected c k"
    by linarith
  from cum_uninfected_ge [OF assms(2,3)] assms(2) [rule_format, of "rows ! k"]
  show "0 \<le> cum_uninfected n c k"
    by linarith
  from cum_infected_ge [OF assms(1,3)] cum_uninfected_ge [OF assms(2,3)]
  show "n \<le> cum_infected c k + cum_uninfected n c k"
    by linarith
qed

lemma percent_bounds:
  assumes "\<forall>r. 0 \<le> c r" and "\<forall>r. c r \<le> n" and "0 < n" and "k < 8"
  shows "0 \<le> percent n c k" and "percent n c k \<le> 100"
proof -
  let ?i = "real_of_int (cum_infected c k)" and ?u = "real_of_int (cum_uninfected n c k)"
  from cum_bounds [OF assms(1,2,4)] assms(3)
  have "0 \<le> ?i" "0 \<le> ?u" "0 < ?i + ?u"
    by simp_all
  then show "0 \<le> percent n c k" and "percent n c k \<le> 100"
    by (simp_all add: percent_def field_simps)
qed

lemma valid_percentinfected:
  assumes "valid_assay iw"
  shows "\<exists>P. Titer_percentinfected iw = Inr P \<and>
           (\<forall>k < 8. P (rows ! k) = Some (percent (int (length iw)) (cnt iw) k))"
proof -
  from valid_assayD [OF assms]
  have n: "2 \<le> length iw" and lab: "\<forall>r \<in> set iw. set r \<subseteq> set rows"
    and d: "\<forall>r \<in> set iw. distinct r"
    by simp_all
  have "cum_infected (cnt iw) k + cum_uninfected (int (length iw)) (cnt iw) k \<noteq> 0"
    if "k < 8" for k
    using cum_bounds(3) [of "cnt iw" "int (length iw)" k] cnt_bounds [OF d] that n
    by auto
  with Titer_percentinfected_ok [OF n lab] show ?thesis
    by blast
qed

lemma Titer_success:
  assumes "valid_assay iw" and "Titer iw volume dilution = Inr t"
  shows "\<exists>k. k < 7 \<and> percent (int (length iw)) (cnt iw) (Suc k) < 50 \<and>
           (\<forall>j \<le> k. 50 \<le> percent (int (length iw)) (cnt iw) j) \<and>
           Titer_locals iw =
             Inr \<lparr>rowabove50 = rows ! k,
                  percentrowabove50 = percent (int (length iw)) (cnt iw) k,
                  percentrowbelow50 = percent (int (length iw)) (cnt iw) (Suc k),
                  index = (percent (int (length iw)) (cnt iw) k - 50) /
                    (percent (int (length iw)) (cnt iw) k - percent (int (length iw)) (cnt iw) (Suc k)),
                  startdilution = k\<rparr>"
proof -
  let ?f = "percent (int (length iw)) (cnt iw)"
  from valid_percentinfected [OF assms(1)]
  obtain P where P: "Titer_percentinfected iw = Inr P" and at: "\<forall>k < 8. P (rows ! k) = Some (?f k)"
    by blast
  note loc = Titer_locals_ok [OF P at]
  from assms(2) obtain l where l: "Titer_locals iw = Inr l"
    by (auto simp: Titer_def split: sum.splits)
  with loc obtain i where i: "List.find (\<lambda>i. ?f i < 50) [0..<8] = Some i" "i \<noteq> 0"
    by (auto split: option.splits if_splits)
  then obtain k where k: "i = Suc k" by (cases i) auto
  from i(1) have "i < 8" "?f i < 50" "\<forall>j < i. \<not> ?f j < 50"
    by (auto simp: find_Some_iff)
  with k have "k < 7" "?f (Suc k) < 50" "\<forall>j \<le> k. 50 \<le> ?f j"
    by (auto simp: less_Suc_eq_le not_less)
  moreover from loc i k have "Titer_locals iw =
             Inr \<lparr>rowabove50 = rows ! k, percentrowabove50 = ?f k,
                  percentrowbelow50 = ?f (Suc k),
                  index = (?f k - 50) / (?f k - ?f (Suc k)), startdilution = k\<rparr>"
    by simp
  ultimately show ?thesis by blast
qed

section \<open>Replicates that all show the same rows\<close>

lemma sum_list_all_zero: "\<forall>x \<in> set xs. f x = (0::int) \<Longrightarrow> sum_list (map f xs) = 0"
  by (induction xs) auto

lemma pattern_cnt:
  assumes "\<forall>r \<in> set iw. distinct r \<and> set r = S"
  shows "cnt iw x = (if x \<in> S then int (length iw) else 0)"
proof -
  from assms have "count_list (concat iw) x = length (filter (\<lambda>r. x \<in> set r) iw)"
    by (simp add: count_list_concat_distinct)
  moreover have "filter (\<lambda>r. x \<in> set r) iw = (if x \<in> S then iw else [])"
    using assms by (auto simp: filter_empty_conv intro: filter_True)
  ultimately show ?thesis
    by (simp add: cnt_def)
qed

lemma pattern_valid:
  assumes "2 \<le> length iw" and "\<forall>r \<in> set iw. distinct r \<and> set r = set (take m rows)"
  shows "valid_assay iw"
proof -
  have "set (take m rows) \<subseteq> set rows"
    by (rule set_take_subset)
  with assms show ?thesis
    by (auto simp: valid_assay_def list_all_iff)
qed

lemma pattern_percent:
  assumes "2 \<le> length iw" and "\<forall>r \<in> set iw. distinct r \<and> set r = set (take m rows)"
    and "i < 8"
  shows "percent (int (length iw)) (cnt iw) i = (if i < m then 100 else 0)"
proof -
  let ?n = "int (length iw)"
  note c = pattern_cnt [OF assms(2)]
  from assms(2) have d: "\<forall>r \<in> set iw. distinct r" by simp
  have pos: "0 < cum_infected (cnt iw) i + cum_uninfected ?n (cnt iw) i"
    using cum_bounds(3) [of "cnt iw" ?n i] cnt_bounds [OF d] assms(1,3) by auto
  show ?thesis
  proof (cases "i < m")
    case True
    then have "set (take (Suc i) rows) \<subseteq> set (take m rows)"
      by (intro set_take_subset_set_take) simp
    then have "\<forall>r \<in> set (take (Suc i) rows). ?n - cnt iw r = 0"
      by (auto simp: c)
    then have "cum_uninfected ?n (cnt iw) i = 0"
      unfolding cum_uninfected_def by (rule sum_list_all_zero)
    with pos True show ?thesis
      by (simp add: percent_def)
  next
    case False
    then have "set (drop i rows) \<subseteq> set (drop m rows)"
      by (intro set_drop_subset_set_drop) simp
    moreover have "set (take m rows) \<inter> set (drop m rows) = {}"
      using distinct_rows by (metis append_take_drop_id distinct_append)
    ultimately have "\<forall>r \<in> set (drop i rows). cnt iw r = 0"
      by (auto simp: c)
    then have "cum_infected (cnt iw) i = 0"
      unfolding cum_infected_def by (rule sum_list_all_zero)
    with False show ?thesis
      by (simp add: percent_def)
  qed
qed

lemma pattern_locals:
  assumes "2 \<le> length iw" and "\<forall>r \<in> set iw. distinct r \<and> set r = set (take m rows)"
  shows "Titer_locals iw =
     (case List.find (\<lambda>i. (if i < m then 100 else 0) < (50::real)) [0..<8] of
        None \<Rightarrow> Inl NoDilutionBelow50
      | Some i \<Rightarrow>
          if i = 0 then Inl FirstDilutionBelow50
          else Inr \<lparr>rowabove50 = rows ! (i - 1),
                    percentrowabove50 = (if i - 1 < m then 100 else 0),
                    percentrowbelow50 = (if i < m then 100 else 0),
                    index = ((if i - 1 < m then 100 else 0) - 50) /
                      ((if i - 1 < m then 100 else 0) - (if i < m then 100 else 0)),
                    startdilution = i - 1\<rparr>)"
proof -
  from valid_percentinfected [OF pattern_valid [OF assms]]
  obtain P where P: "Titer_percentinfected iw = Inr P"
    and at: "\<forall>k < 8. P (rows ! k) = Some (percent (int (length iw)) (cnt iw) k)"
    by blast
  from at have "\<forall>k < 8. P (rows ! k) = Some (if k < m then 100 else 0)"
    by (simp add: pattern_percent [OF assms])
  from Titer_locals_ok [OF P this] show ?thesis .
qed



section \<open>Running the example\<close>

text \<open>The definitions to unfold when \<^verbatim>\<open>Titer\<close> is run on a concrete input.\<close>

lemmas run_simps = Titer_def Titer_locals_def Titer_percentinfected_def Titer_cumulative_def
  Titer_counts_def counts_init_def rows_def reverserows_def getitem_def list_get_def
  float_div_def float_pow_def interpolate_def percent_below_def

lemma scenario_valid: "valid_assay scenario"
  by (simp add: valid_assay_def scenario_def rows_def)

lemma scenario_counts:
  "Titer_counts scenario = Inr [''A'' \<mapsto> 3, ''B'' \<mapsto> 3, ''C'' \<mapsto> 3, ''D'' \<mapsto> 2, ''E'' \<mapsto> 0, ''F'' \<mapsto> 0, ''G'' \<mapsto> 0, ''H'' \<mapsto> 0]"
  apply (simp add: run_simps scenario_def)
  apply (rule ext)
  apply simp
  done

lemma scenario_percentinfected:
  "Titer_percentinfected scenario =
     Inr [''A'' \<mapsto> 100, ''B'' \<mapsto> 100, ''C'' \<mapsto> 100, ''D'' \<mapsto> 200 / 3,
          ''E'' \<mapsto> 0, ''F'' \<mapsto> 0, ''G'' \<mapsto> 0, ''H'' \<mapsto> 0]"
  by (simp add: run_simps scenario_def)

lemma scenario_locals:
  "Titer_locals scenario = Inr \<lparr>rowabove50 = ''D'', percentrowabove50 = 200 / 3,
      percentrowbelow50 = 0, index = 1 / 4, startdilution = 3\<rparr>"
  by (simp add: run_simps scenario_def)

lemma scenario_in_range: "\<not> float_overflow \<le> 10 powr (13 / 4)"
  using powr_below_overflow [of 10 "13 / 4" 4] by (simp add: float_overflow_def)

lemma scenario_run:
  "Titer scenario (1 / 20) 10 = Inr (10 powr (13 / 4) / (1 / 20))"
  using scenario_locals scenario_in_range by (simp add: Titer_def float_pow_pos float_div_def)

lemma scenario_spec:
   "spec_titer scenario (1 / 20) 10 = Some (10 powr (13 / 4) / (1 / 20))"
  by (simp add: spec_titer_def spec_percentInfected_def spec_infected_def spec_uninfected_def
      spec_count_def scenario_def rows_def)

section \<open>The claims\<close>

lemma spec_percentInfected_eq:
  assumes "\<forall>r \<in> set iw. distinct r"
  shows "spec_percentInfected iw k = percent (int (length iw)) (cnt iw) k"
proof -
  have "spec_count iw = cnt iw"
    using assms by (intro ext) (simp add: spec_count_def cnt_def count_list_concat_distinct)
  then show ?thesis
    by (simp add: spec_percentInfected_def spec_infected_def spec_uninfected_def percent_def
        cum_infected_def cum_uninfected_def)
qed

text \<open>
  C1. For a valid sample assay (at least two replicates, each a duplicate-free list of
  rows A to H), a volume above 0 and a dilution above 1: whenever \<^verbatim>\<open>Titer\<close>
  returns a titer, it is the one of the specification, \<open>dilution ^ (startDilution +
  index) / volume\<close>, where the count of a row is the number of replicates that contain
  it, \<open>infected\<close> sums the counts from H up to the row, \<open>uninfected\<close> sums
  \<open>nreplicates - count\<close> from A down to the row, \<open>percentInfected\<close> is
  \<open>100 * infected / (infected + uninfected)\<close>, \<open>rowAbove50\<close> is the row before the
  first row below 50, \<open>pBelow\<close> is the percentage of the next row (0 after H) and
  \<open>index = (pAbove - 50) / (pAbove - pBelow)\<close>.
\<close>

theorem Titer_refines_spec:
  assumes "valid_assay infectedwells" and "0 < volume" and "1 < dilution"
    and "Titer infectedwells volume dilution = Inr titer"
  shows "spec_titer infectedwells volume dilution = Some titer"
proof -
  let ?f = "percent (int (length infectedwells)) (cnt infectedwells)"
  from Titer_success [OF assms(1,4)]
  obtain k where k: "k < 7" and below: "?f (Suc k) < 50" and above: "\<forall>j \<le> k. 50 \<le> ?f j"
    and loc: "Titer_locals infectedwells =
             Inr \<lparr>rowabove50 = rows ! k, percentrowabove50 = ?f k,
                  percentrowbelow50 = ?f (Suc k),
                  index = (?f k - 50) / (?f k - ?f (Suc k)), startdilution = k\<rparr>"
    by blast
  from assms(2-4) loc
  have titer: "titer = dilution powr (real k + (?f k - 50) / (?f k - ?f (Suc k))) / volume"
    by (simp add: Titer_def float_pow_pos float_div_def split: if_splits)
  from valid_assayD [OF assms(1)] have "\<forall>r \<in> set infectedwells. distinct r"
    by simp
  then have eq: "spec_percentInfected infectedwells = ?f"
    by (intro ext) (rule spec_percentInfected_eq)
  have "List.find (\<lambda>i. ?f i < 50) [0..<8] = Some (Suc k)"
    using k below above by (intro find_upt_first) (auto simp: not_less)
  with k titer show ?thesis
    by (simp add: spec_titer_def eq length_rows Let_def)
qed

theorem Titer_refines_spec_witness:
  "valid_assay scenario \<and> (0::real) < 1 / 20 \<and> (1::real) < 10 \<and>
   Titer scenario (1 / 20) 10 = Inr (10 powr (13 / 4) / (1 / 20)) \<and>
   spec_titer scenario (1 / 20) 10 = Some (10 powr (13 / 4) / (1 / 20))"
proof -
  note run = scenario_run
  from Titer_refines_spec [OF scenario_valid _ _ run] scenario_valid run
  show ?thesis by simp
qed




text \<open>
  C3, as stated, fails. On the example of the docstring,
  \<^verbatim>\<open>[[A, B, C, D], [A, B, C], [A, B, C, D]]\<close> with
  volume 0.05 and dilution 10, row D is infected in two of the three replicates; its
  cumulative totals are 2 infected and 1 uninfected, so its percentage is 200/3, which
  is not below 50: the statement that the percentages cross 50 between row C and row D,
  with the percentage of row D below 50, fails.
\<close>

theorem scenario_crossing_counterexample:
  "percentinfected_at scenario ''C'' = Inr 100 \<and>
   percentinfected_at scenario ''D'' = Inr (200 / 3) \<and> \<not> (200 / 3 < (50::real)) \<and>
   percentinfected_at scenario ''E'' = Inr 0 \<and>
   Titer_locals scenario =
     Inr \<lparr>rowabove50 = ''D'', percentrowabove50 = 200 / 3, percentrowbelow50 = 0,
          index = 1 / 4, startdilution = 3\<rparr>"
  by (simp add: percentinfected_at_def scenario_percentinfected scenario_locals getitem_def)

text \<open>
  C3, amended. On the example, \<^verbatim>\<open>Titer\<close> computes the counts A = 3, B = 3, C = 3,
  D = 2 and E to H = 0; the percentages are 100 for A, B and C, 200/3 for D and 0 from E
  on, so they cross 50 between row D and row E; the row above the crossing is D, the
  index is 1/4 and the start dilution 3; and the titer returned, \<open>10 ^ (13/4) / 0.05\<close>,
  is the value of the algorithm of the specification on these inputs.
\<close>

theorem scenario_result:
  "Titer_counts scenario =
     Inr [''A'' \<mapsto> 3, ''B'' \<mapsto> 3, ''C'' \<mapsto> 3, ''D'' \<mapsto> 2,
          ''E'' \<mapsto> 0, ''F'' \<mapsto> 0, ''G'' \<mapsto> 0, ''H'' \<mapsto> 0] \<and>
   Titer_percentinfected scenario =
     Inr [''A'' \<mapsto> 100, ''B'' \<mapsto> 100, ''C'' \<mapsto> 100, ''D'' \<mapsto> 200 / 3,
          ''E'' \<mapsto> 0, ''F'' \<mapsto> 0, ''G'' \<mapsto> 0, ''H'' \<mapsto> 0] \<and>
   Titer_locals scenario =
     Inr \<lparr>rowabove50 = ''D'', percentrowabove50 = 200 / 3, percentrowbelow50 = 0,
          index = 1 / 4, startdilution = 3\<rparr> \<and>
   Titer scenario (1 / 20) 10 = Inr (10 powr (13 / 4) / (1 / 20)) \<and>
   spec_titer scenario (1 / 20) 10 = Some (10 powr (13 / 4) / (1 / 20))"
  using scenario_counts scenario_percentinfected scenario_locals scenario_run scenario_spec
  by (intro conjI)

text \<open>
  C4. With at least two replicates, all of them empty (no infection in any row),
  \<^verbatim>\<open>Titer\<close> fails with the error of a first dilution already below 50 percent,
  and returns no titer.
\<close>

theorem Titer_no_infection:
  assumes "2 \<le> length infectedwells" and "\<forall>r \<in> set infectedwells. r = []"
  shows "Titer infectedwells volume dilution = Inl FirstDilutionBelow50"
proof -
  from assms(2)
  have "\<forall>r \<in> set infectedwells. distinct r \<and> set r = set (take 0 rows)"
    by auto
  moreover have "List.find (\<lambda>i. (if i < 0 then 100 else 0) < (50::real)) [0..<8] = Some 0"
    by (intro find_upt_first) simp_all
  ultimately have "Titer_locals infectedwells = Inl FirstDilutionBelow50"
    using pattern_locals [OF assms(1), of 0] by simp
  then show ?thesis
    by (simp add: Titer_def)
qed

theorem Titer_no_infection_witness:
  "2 \<le> length [[], [], [] :: string list] \<and>
   Titer [[], [], []] (1 / 20) 10 = Inl FirstDilutionBelow50"
  using Titer_no_infection [of "[[], [], []]" "1 / 20" 10] by simp

text \<open>
  C5. With at least two replicates, each of them showing infection in every row A to H,
  \<^verbatim>\<open>Titer\<close> fails with the error that no dilution is below 50 percent, and
  returns no titer.
\<close>

theorem Titer_all_infected:
  assumes "2 \<le> length infectedwells"
    and "\<forall>r \<in> set infectedwells. distinct r \<and> set r = set rows"
  shows "Titer infectedwells volume dilution = Inl NoDilutionBelow50"
proof -
  from assms(2)
  have "\<forall>r \<in> set infectedwells. distinct r \<and> set r = set (take 8 rows)"
    by (simp add: length_rows)
  moreover have "List.find (\<lambda>i. (if i < 8 then 100 else 0) < (50::real)) [0..<8] = None"
    by (simp add: find_None_iff)
  ultimately have "Titer_locals infectedwells = Inl NoDilutionBelow50"
    using pattern_locals [OF assms(1), of 8] by simp
  then show ?thesis
    by (simp add: Titer_def)
qed

theorem Titer_all_infected_witness:
  "2 \<le> length [rows, rev rows] \<and> distinct rows \<and> distinct (rev rows) \<and>
   set (rev rows) = set rows \<and>
   Titer [rows, rev rows] (1 / 20) 10 = Inl NoDilutionBelow50"
  using Titer_all_infected [of "[rows, rev rows]" "1 / 20" 10] distinct_rows by simp

text \<open>
  C6. A list of replicate observations with fewer than two entries (the empty list, a
  single replicate) makes \<^verbatim>\<open>Titer\<close> fail with the error of insufficient
  replicates, whatever the volume and the dilution; no titer is returned.
\<close>

theorem Titer_insufficient_replicates:
  "length infectedwells < 2 \<Longrightarrow>
   Titer infectedwells volume dilution =
     Inl (InsufficientReplicates (int (length infectedwells)))"
  by (simp add: Titer_def Titer_locals_def Titer_percentinfected_def Titer_cumulative_def
      Titer_counts_few)

theorem Titer_insufficient_replicates_witness:
  "length [[''A'', ''B'']] < 2 \<and>
   Titer [[''A'', ''B'']] (1/20) 10 = Inl (InsufficientReplicates 1)"
  using Titer_insufficient_replicates [of "[[''A'', ''B'']]" "1/20" 10] by simp

text \<open>
  C7. With at least two replicates, one of which contains a label that is not among A to
  H (\<^verbatim>\<open>Z\<close>, say), \<^verbatim>\<open>Titer\<close> fails with the error of an invalid row label, for a
  label that is indeed not a row, and returns no titer.
\<close>

theorem Titer_invalid_row_label:
  assumes "2 \<le> length infectedwells"
    and "replicatewells \<in> set infectedwells" and "well \<in> set replicatewells"
    and "well \<notin> set rows"
  shows "\<exists>w. w \<notin> set rows \<and> Titer infectedwells volume dilution = Inl (InvalidRowLabel w)"
proof -
  from assms(2-4) have "\<exists>r \<in> set infectedwells. \<not> set r \<subseteq> set rows"
    by blast
  from count_wells_bad [OF this, of "\<lambda>r. 0"]
  obtain w where "w \<notin> set rows" "count_wells counts_init infectedwells = Inl (InvalidRowLabel w)"
    by (auto simp: counts_init_rows_dict)
  with assms(1) show ?thesis
    by (intro exI [of _ w])
      (simp add: Titer_def Titer_locals_def Titer_percentinfected_def Titer_cumulative_def
        Titer_counts_def)
qed

theorem Titer_invalid_row_label_witness:
  "2 \<le> length [[''A'', ''B''], [''A'', ''Z'']] \<and>
   [''A'', ''Z''] \<in> set [[''A'', ''B''], [''A'', ''Z'']] \<and> ''Z'' \<in> set [''A'', ''Z''] \<and>
   ''Z'' \<notin> set rows \<and>
   Titer [[''A'', ''B''], [''A'', ''Z'']] 1 10 = Inl (InvalidRowLabel ''Z'')"
proof -
  have z: "''Z'' \<notin> set rows" by (simp add: rows_def)
  from Titer_invalid_row_label [of "[[''A'', ''B''], [''A'', ''Z'']]" "[''A'', ''Z'']" "''Z''" 1 10] z
  have "\<exists>w. Titer [[''A'', ''B''], [''A'', ''Z'']] 1 10 = Inl (InvalidRowLabel w)"
    by auto
  moreover have "Titer [[''A'', ''B''], [''A'', ''Z'']] 1 10 = Inl (InvalidRowLabel ''Z'')"
    by (simp add: run_simps)
  ultimately show ?thesis using z by simp
qed

text \<open>
  C8. For a valid sample assay, the table \<^verbatim>\<open>percentinfected\<close> is computed, and its
  entry for every row A to H lies between 0 and 100.
\<close>

theorem percentinfected_range:
  assumes "valid_assay infectedwells" and "row \<in> set rows"
  shows "\<exists>percentinfected p.
           Titer_percentinfected infectedwells = Inr percentinfected \<and>
           percentinfected row = Some p \<and> 0 \<le> p \<and> p \<le> 100"
proof -
  from valid_percentinfected [OF assms(1)]
  obtain P where P: "Titer_percentinfected infectedwells = Inr P"
    and at: "\<And>k. k < 8 \<Longrightarrow> P (rows ! k) = Some (percent (int (length infectedwells)) (cnt infectedwells) k)"
    by blast
  from assms(2) obtain k where k: "k < 8" "row = rows ! k"
    by (auto simp: in_set_conv_nth length_rows)
  from valid_assayD [OF assms(1)]
  have "\<forall>r. 0 \<le> cnt infectedwells r" "\<forall>r. cnt infectedwells r \<le> int (length infectedwells)"
    "0 < int (length infectedwells)"
    by (auto simp: cnt_bounds)
  from percent_bounds [OF this k(1)] P at [OF k(1)] k(2) show ?thesis
    by simp
qed

theorem percentinfected_range_witness:
  "valid_assay scenario \<and> ''D'' \<in> set rows \<and>
   (\<exists>percentinfected p.
           Titer_percentinfected scenario = Inr percentinfected \<and>
           percentinfected ''D'' = Some p \<and> 0 \<le> p \<and> p \<le> 100)"
proof -
  have "''D'' \<in> set rows" by (simp add: rows_def)
  with percentinfected_range [OF scenario_valid this] scenario_valid show ?thesis
    by simp
qed

text \<open>
  C9. For a valid sample assay and every row A to H, the denominator
  \<^verbatim>\<open>infected[row] + uninfected[row]\<close> of the percentage is strictly positive, so
  the division that computes \<^verbatim>\<open>percentinfected[row]\<close> does not divide by zero.
\<close>

theorem percentinfected_denominator_positive:
  assumes "valid_assay infectedwells" and "row \<in> set rows"
  shows "\<exists>infected uninfected i u.
           Titer_cumulative infectedwells = Inr (infected, uninfected) \<and>
           infected row = Some i \<and> uninfected row = Some u \<and> 0 < i + u \<and>
           float_div (100 * real_of_int i) (real_of_int (i + u)) \<noteq> Inl ZeroDivisionError"
proof -
  from valid_assayD [OF assms(1)]
  have n: "2 \<le> length infectedwells" and lab: "\<forall>r \<in> set infectedwells. set r \<subseteq> set rows"
    and d: "\<forall>r \<in> set infectedwells. distinct r"
    by simp_all
  from Titer_cumulative_ok [OF n lab]
  obtain I U where cum: "Titer_cumulative infectedwells = Inr (I, U)"
    and I: "\<And>k. k < 8 \<Longrightarrow> I (rows ! k) = Some (cum_infected (cnt infectedwells) k)"
    and U: "\<And>k. k < 8 \<Longrightarrow>
              U (rows ! k) = Some (cum_uninfected (int (length infectedwells)) (cnt infectedwells) k)"
    by blast
  from assms(2) obtain k where k: "k < 8" "row = rows ! k"
    by (auto simp: in_set_conv_nth length_rows)
  have "0 < cum_infected (cnt infectedwells) k +
            cum_uninfected (int (length infectedwells)) (cnt infectedwells) k"
    using cum_bounds(3) [of "cnt infectedwells" "int (length infectedwells)" k]
      cnt_bounds [OF d] k(1) n
    by auto
  moreover from this
  have "real_of_int (cum_infected (cnt infectedwells) k +
            cum_uninfected (int (length infectedwells)) (cnt infectedwells) k) \<noteq> 0"
    by simp
  ultimately show ?thesis
    using cum I [OF k(1)] U [OF k(1)] k(2)
    by (simp add: float_div_def del: of_int_add)
qed

theorem percentinfected_denominator_positive_witness:
  "valid_assay scenario \<and> ''D'' \<in> set rows \<and>
   (\<exists>infected uninfected i u.
           Titer_cumulative scenario = Inr (infected, uninfected) \<and>
           infected ''D'' = Some i \<and> uninfected ''D'' = Some u \<and> 0 < i + u \<and>
           float_div (100 * real_of_int i) (real_of_int (i + u)) \<noteq> Inl ZeroDivisionError)"
proof -
  have "''D'' \<in> set rows" by (simp add: rows_def)
  with percentinfected_denominator_positive [OF scenario_valid this] scenario_valid
  show ?thesis by simp
qed

text \<open>
  C10. For a valid sample assay on which \<^verbatim>\<open>Titer\<close> returns a titer,
  \<^verbatim>\<open>rowabove50\<close> is one of the rows A to G and never the last row H (the branch
  \<^verbatim>\<open>percentrowbelow50 = 0\<close> is not taken), the percentage above is at least 50 and
  the percentage below is less than 50, so the denominator of the interpolation is
  strictly positive and the index is at least 0 and less than 1.
\<close>

theorem Titer_crossing_well_formed:
  assumes "valid_assay infectedwells" and "Titer infectedwells volume dilution = Inr titer"
  shows "\<exists>l. Titer_locals infectedwells = Inr l \<and>
           rowabove50 l \<in> set (butlast rows) \<and> rowabove50 l \<noteq> last rows \<and>
           50 \<le> percentrowabove50 l \<and> percentrowbelow50 l < 50 \<and>
           0 < percentrowabove50 l - percentrowbelow50 l \<and>
           0 \<le> index l \<and> index l < 1"
proof -
  let ?f = "percent (int (length infectedwells)) (cnt infectedwells)"
  from Titer_success [OF assms]
  obtain k where k: "k < 7" and below: "?f (Suc k) < 50" and above: "50 \<le> ?f k"
    and loc: "Titer_locals infectedwells =
             Inr \<lparr>rowabove50 = rows ! k, percentrowabove50 = ?f k,
                  percentrowbelow50 = ?f (Suc k),
                  index = (?f k - 50) / (?f k - ?f (Suc k)), startdilution = k\<rparr>"
    by blast
  have "butlast rows = take 7 rows"
    by (simp add: butlast_conv_take length_rows)
  with k have "rows ! k \<in> set (butlast rows)"
    by (simp add: in_set_conv_nth length_rows) (metis nth_take)
  moreover have "0 \<le> (?f k - 50) / (?f k - ?f (Suc k))" "(?f k - 50) / (?f k - ?f (Suc k)) < 1"
    using below above by (simp_all add: field_simps)
  ultimately show ?thesis
    using loc below above rows_nth_not_last [OF k] by simp
qed

theorem Titer_crossing_well_formed_witness:
  "valid_assay scenario \<and> Titer scenario (1 / 20) 10 = Inr (10 powr (13 / 4) / (1 / 20)) \<and>
   (\<exists>l. Titer_locals scenario = Inr l \<and>
           rowabove50 l \<in> set (butlast rows) \<and> rowabove50 l \<noteq> last rows \<and>
           50 \<le> percentrowabove50 l \<and> percentrowbelow50 l < 50 \<and>
           0 < percentrowabove50 l - percentrowbelow50 l \<and>
           0 \<le> index l \<and> index l < 1)"
proof -
  note run = scenario_run
  from Titer_crossing_well_formed [OF scenario_valid run] scenario_valid run
  show ?thesis by simp
qed

end
